theory Spec2Isabelle
  imports Complex_Main
begin

section \<open>Python values used by \<open>cnstd/utils/utils.py\<close>\<close>

text \<open>
  A Python \<open>str\<close> is a sequence of Unicode code points, so text that the code reads from
  a file is a list of code points. Paths, URLs and hexadecimal digests are kept as HOL
  strings.
\<close>

type_synonym pystr = "nat list"

definition asc :: "string \<Rightarrow> pystr" where
  "asc s = map of_char s"

text \<open>The exceptions that the functions of the file can raise.\<close>

datatype error =
    ValueError
  | KeyError
  | AttributeError
  | RuntimeError
  | UserWarning
  | NotImplementedError
  | FileNotFoundError
  | IsADirectoryError
  | BadZipFile
  | IndexError
  | UnicodeDecodeError
  | FileExistsError
  | NotADirectoryError

text \<open>
  \<open>UnicodeDecodeError\<close> is a subclass of \<open>ValueError\<close>: code that catches or expects a
  \<open>ValueError\<close> gets both.
\<close>

definition is_ValueError :: "error \<Rightarrow> bool" where
  "is_ValueError e = (e = ValueError \<or> e = UnicodeDecodeError)"

text \<open>
  A Python \<open>dict\<close> keeps its keys in insertion order and holds each key once:
  \<open>d[k] = v\<close> overwrites the value of a key that is present, where it stands, and appends
  the pair otherwise.
\<close>

type_synonym ('k, 'v) dict = "('k \<times> 'v) list"

fun dict_set :: "'k \<Rightarrow> 'v \<Rightarrow> ('k, 'v) dict \<Rightarrow> ('k, 'v) dict" where
  "dict_set k v [] = [(k, v)]"
| "dict_set k v (p # ps) = (if fst p = k then (k, v) # ps else p # dict_set k v ps)"

definition dict_get :: "('k, 'v) dict \<Rightarrow> 'k \<Rightarrow> 'v option" where
  "dict_get d k = map_of d k"

definition dict_keys :: "('k, 'v) dict \<Rightarrow> 'k list" where
  "dict_keys d = map fst d"

section \<open>\<open>read_charset\<close>\<close>

text \<open>
  \<open>open(charset_fp, encoding='utf-8')\<close> reads in text mode with universal newlines: a
  carriage return, alone or followed by a line feed, is delivered as one line feed.
\<close>

definition LF :: nat where "LF = 10"
definition CR :: nat where "CR = 13"

fun universal_newlines :: "pystr \<Rightarrow> pystr" where
  "universal_newlines [] = []"
| "universal_newlines [c] = [if c = CR then LF else c]"
| "universal_newlines (c # d # cs) =
     (if c = CR \<and> d = LF then LF # universal_newlines cs
      else (if c = CR then LF else c) # universal_newlines (d # cs))"

text \<open>
  \<open>for line in fp\<close> yields the text cut after every line feed; each line keeps its line
  feed, and the text after the last line feed, when not empty, is the last line.
\<close>

fun file_lines :: "pystr \<Rightarrow> pystr list" where
  "file_lines [] = []"
| "file_lines (c # cs) =
     (if c = LF then [c] # file_lines cs
      else (case file_lines cs of [] \<Rightarrow> [[c]] | l # ls \<Rightarrow> (c # l) # ls))"

text \<open>\<open>line.rstrip('\n')\<close> removes every line feed at the end of the line.\<close>

definition rstrip_nl :: "pystr \<Rightarrow> pystr" where
  "rstrip_nl s = rev (dropWhile (\<lambda>c. c = LF) (rev s))"

text \<open>\<open>{_char: idx for idx, _char in enumerate(alphabet)}\<close>, built from index \<open>i\<close> on.\<close>

fun enumerate_dict :: "nat \<Rightarrow> 'k list \<Rightarrow> ('k, nat) dict \<Rightarrow> ('k, nat) dict" where
  "enumerate_dict i [] d = d"
| "enumerate_dict i (x # xs) d = enumerate_dict (Suc i) xs (dict_set x i d)"

text \<open>
  The body of \<open>read_charset\<close> on the decoded text of the file. The message of the
  \<open>ValueError\<close> (the most common repeated entries) is not part of the model.
\<close>

definition charset_of_text :: "pystr \<Rightarrow> error + (pystr list \<times> (pystr, nat) dict)" where
  "charset_of_text txt =
     (let alphabet = map rstrip_nl (file_lines (universal_newlines txt));
          inv_alph_dict = enumerate_dict 0 alphabet []
      in if length alphabet \<noteq> length inv_alph_dict then Inl ValueError
         else Inr (alphabet, inv_alph_dict))"

text \<open>
  The words of the specification: a line loses its trailing line feed, if it has one, and
  the lines of the file are compared after that.
\<close>

definition strip_trailing_newline :: "pystr \<Rightarrow> pystr" where
  "strip_trailing_newline l = (if l \<noteq> [] \<and> last l = LF then butlast l else l)"

definition charset_lines :: "pystr \<Rightarrow> pystr list" where
  "charset_lines txt = map strip_trailing_newline (file_lines (universal_newlines txt))"

section \<open>\<open>load_model_params\<close>\<close>

text \<open>The literal \<open>'model.'\<close> and the separator \<open>'.'\<close>.\<close>

definition dot :: nat where "dot = 46"

definition model_prefix :: pystr where
  "model_prefix = [109, 111, 100, 101, 108, 46]"

text \<open>\<open>s.startswith(p)\<close>.\<close>

definition startswith :: "pystr \<Rightarrow> pystr \<Rightarrow> bool" where
  "startswith s p = (take (length p) s = p)"

text \<open>
  \<open>k.split('.', maxsplit=1)\<close>: the text before the first dot and the text after it, or
  the whole text alone when it has no dot.
\<close>

definition split_dot_once :: "pystr \<Rightarrow> pystr list" where
  "split_dot_once k =
     (if dot \<in> set k
      then [takeWhile (\<lambda>c. c \<noteq> dot) k, tl (dropWhile (\<lambda>c. c \<noteq> dot) k)]
      else [k])"

text \<open>\<open>xs[i]\<close> for an index that is not negative.\<close>

definition list_index :: "'a list \<Rightarrow> nat \<Rightarrow> error + 'a" where
  "list_index xs i = (if i < length xs then Inr (xs ! i) else Inl IndexError)"

text \<open>
  The loop \<open>for k, v in checkpoint['state_dict'].items(): state_dict[k.split('.',
  maxsplit=1)[1]] = v\<close>, with the dictionary built so far as accumulator.
\<close>

fun strip_keys :: "(pystr \<times> 'v) list \<Rightarrow> (pystr, 'v) dict \<Rightarrow> error + (pystr, 'v) dict" where
  "strip_keys [] state_dict = Inr state_dict"
| "strip_keys ((k, v) # kvs) state_dict =
     (case list_index (split_dot_once k) 1 of
        Inl e \<Rightarrow> Inl e
      | Inr k' \<Rightarrow> strip_keys kvs (dict_set k' v state_dict))"

text \<open>The state dictionary that is handed to \<open>model.load_state_dict\<close>.\<close>

definition converted_state_dict :: "(pystr, 'v) dict \<Rightarrow> error + (pystr, 'v) dict" where
  "converted_state_dict sd =
     (if list_all (\<lambda>param_name. startswith param_name model_prefix) (dict_keys sd)
      then strip_keys sd []
      else Inr sd)"

text \<open>
  \<open>checkpoint\<close> is the value returned by \<open>torch.load(param_fp, map_location=device)\<close>: a
  dictionary whose entry \<open>'state_dict'\<close> is the state dictionary. The model is an object in
  a store; \<open>load_state_dict\<close> is the method of the torch library, which updates the store
  at the model or raises. The function returns the reference to the model it was given.
\<close>

definition load_model_params ::
  "('s \<Rightarrow> 'r \<Rightarrow> (pystr, 'v) dict \<Rightarrow> error + 's) \<Rightarrow> 's \<Rightarrow> 'r \<Rightarrow>
   (string, (pystr, 'v) dict) dict \<Rightarrow> error + ('r \<times> 's)" where
  "load_model_params load_state_dict s model checkpoint =
     (case dict_get checkpoint ''state_dict'' of
        None \<Rightarrow> Inl KeyError
      | Some sd \<Rightarrow>
          (case converted_state_dict sd of
             Inl e \<Rightarrow> Inl e
           | Inr state_dict \<Rightarrow>
               (case load_state_dict s model state_dict of
                  Inl e \<Rightarrow> Inl e
                | Inr s' \<Rightarrow> Inr (model, s'))))"

text \<open>
  The words of the specification: when every key starts with \<open>'model.'\<close>, each key is
  replaced by the part after its first dot and keeps its value; otherwise the dictionary
  is used as it is.
\<close>

definition after_first_dot :: "pystr \<Rightarrow> pystr" where
  "after_first_dot k = tl (dropWhile (\<lambda>c. c \<noteq> dot) k)"

definition spec_state_dict :: "(pystr, 'v) dict \<Rightarrow> (pystr, 'v) dict" where
  "spec_state_dict sd =
     (if (\<forall>k \<in> set (dict_keys sd). startswith k model_prefix)
      then map (\<lambda>(k, v). (after_first_dot k, v)) sd
      else sd)"

section \<open>The file system, the network and the libraries\<close>

text \<open>
  The functions below act on the file system and on the network. The state they act on is
  a record: the regular files with their contents, the directories, and the log of the
  URLs that were requested. Calls into the operating system and into third-party
  libraries are modelled by what they do when they succeed: writing creates or replaces
  the regular file at a path, creating directories and removing a file cannot fail.
  Reading a path that holds no regular file raises. Failures of the environment
  (permissions, a broken connection) are outside the model.
\<close>

type_synonym bytes = string

record world =
  files :: "string \<rightharpoonup> bytes"
  dirs :: "string set"
  requests :: "string list"

text \<open>
  The response of \<open>requests.get(url, stream=True)\<close>: the status code, the value of the
  \<open>content-length\<close> header when the server sent one, and the chunks that
  \<open>iter_content\<close> yields.
\<close>

record response =
  status_code :: int
  content_length :: "nat option"
  chunks :: "bytes list"

text \<open>
  What the code takes from outside the repository's file: the home directories that
  \<open>os.path.expanduser\<close> looks up (the empty name is the current user), \<open>os.path.abspath\<close>,
  the servers behind \<open>requests.get\<close>, the SHA-1 digest of \<open>hashlib\<close> in hexadecimal, the
  decoder of \<open>zipfile\<close> (the members of an archive, or nothing when the bytes are not
  an archive), and the table \<open>AVAILABLE_MODELS\<close> of \<open>cnstd/consts.py\<close>, which is indexed
  by the model name and holds the URL at position 1 of each entry.
\<close>

record env =
  homes :: "string \<Rightarrow> string option"
  abspath :: "string \<Rightarrow> string"
  http :: "string \<Rightarrow> response"
  sha1_hexdigest :: "bytes \<Rightarrow> string"
  unzip :: "bytes \<Rightarrow> (string \<times> bytes) list option"
  AVAILABLE_MODELS :: "(string, nat \<times> string) dict"

subsection \<open>Paths\<close>

definition slash :: char where "slash = CHR ''/''"

text \<open>\<open>s.split('/')[-1]\<close> and \<open>os.path.basename\<close>: the text after the last slash.\<close>

definition basename :: "string \<Rightarrow> string" where
  "basename p = rev (takeWhile (\<lambda>c. c \<noteq> slash) (rev p))"

text \<open>
  \<open>os.path.dirname\<close>: the text up to the last slash, without its trailing slashes unless it
  consists of slashes only.
\<close>

definition dirname :: "string \<Rightarrow> string" where
  "dirname p =
     (let head = rev (dropWhile (\<lambda>c. c \<noteq> slash) (rev p))
      in if head \<noteq> [] \<and> \<not> list_all (\<lambda>c. c = slash) head
         then rev (dropWhile (\<lambda>c. c = slash) (rev head))
         else head)"

text \<open>\<open>os.path.join(a, b)\<close> for two components.\<close>

definition join :: "string \<Rightarrow> string \<Rightarrow> string" where
  "join a b =
     (if b \<noteq> [] \<and> hd b = slash then b
      else if a = [] \<or> last a = slash then a @ b
      else a @ [slash] @ b)"

text \<open>
  \<open>os.path.expanduser\<close>: a path that starts with a tilde has the tilde and the user name
  after it replaced by that user's home directory, when the user is known.
\<close>

definition expanduser :: "env \<Rightarrow> string \<Rightarrow> string" where
  "expanduser e p =
     (if p = [] \<or> hd p \<noteq> CHR ''~'' then p
      else
        let name = takeWhile (\<lambda>c. c \<noteq> slash) (tl p);
            rest = dropWhile (\<lambda>c. c \<noteq> slash) (tl p)
        in case homes e name of
             None \<Rightarrow> p
           | Some userhome \<Rightarrow>
               (let r = rev (dropWhile (\<lambda>c. c = slash) (rev userhome)) @ rest
                in if r = [] then [slash] else r))"

subsection \<open>Operations on the file system\<close>

definition path_exists :: "world \<Rightarrow> string \<Rightarrow> bool" where
  "path_exists w p = (files w p \<noteq> None \<or> p \<in> dirs w)"

definition isdir :: "world \<Rightarrow> string \<Rightarrow> bool" where
  "isdir w p = (p \<in> dirs w)"

definition makedirs :: "world \<Rightarrow> string \<Rightarrow> world" where
  "makedirs w p = w\<lparr>dirs := insert p (dirs w)\<rparr>"

definition read_file :: "world \<Rightarrow> string \<Rightarrow> error + bytes" where
  "read_file w p = (case files w p of None \<Rightarrow> Inl FileNotFoundError | Some b \<Rightarrow> Inr b)"

definition write_file :: "world \<Rightarrow> string \<Rightarrow> bytes \<Rightarrow> world" where
  "write_file w p b = w\<lparr>files := (files w)(p \<mapsto> b)\<rparr>"


section \<open>\<open>read_charset\<close> on a file\<close>

text \<open>
  The strict UTF-8 decoder of \<open>open(..., encoding='utf-8')\<close>: one to four bytes per code
  point; overlong forms, surrogates, code points above \<open>0x10FFFF\<close>, stray continuation
  bytes and truncated sequences are rejected.
\<close>

definition cont :: "nat \<Rightarrow> bool" where
  "cont b = (128 \<le> b \<and> b \<le> 191)"

fun utf8_decode :: "nat list \<Rightarrow> pystr option" where
  "utf8_decode [] = Some []"
| "utf8_decode (b0 # rest) =
     (if b0 < 128 then map_option ((#) b0) (utf8_decode rest)
      else if 194 \<le> b0 \<and> b0 \<le> 223 then
        (case rest of
           b1 # r \<Rightarrow>
             if cont b1
             then map_option ((#) ((b0 - 192) * 64 + (b1 - 128))) (utf8_decode r)
             else None
         | _ \<Rightarrow> None)
      else if 224 \<le> b0 \<and> b0 \<le> 239 then
        (case rest of
           b1 # b2 # r \<Rightarrow>
             if cont b1 \<and> cont b2 \<and> (b0 = 224 \<longrightarrow> 160 \<le> b1) \<and> (b0 = 237 \<longrightarrow> b1 \<le> 159)
             then map_option ((#) ((b0 - 224) * 4096 + (b1 - 128) * 64 + (b2 - 128)))
                    (utf8_decode r)
             else None
         | _ \<Rightarrow> None)
      else if 240 \<le> b0 \<and> b0 \<le> 244 then
        (case rest of
           b1 # b2 # b3 # r \<Rightarrow>
             if cont b1 \<and> cont b2 \<and> cont b3 \<and> (b0 = 240 \<longrightarrow> 144 \<le> b1) \<and> (b0 = 244 \<longrightarrow> b1 \<le> 143)
             then map_option
                    ((#) ((b0 - 240) * 262144 + (b1 - 128) * 4096 + (b2 - 128) * 64 + (b3 - 128)))
                    (utf8_decode r)
             else None
         | _ \<Rightarrow> None)
      else None)"

text \<open>
  \<open>read_charset(charset_fp)\<close>: the file is opened for reading, its bytes are decoded, and
  the lines of the text are collected and indexed.
\<close>

definition read_charset ::
  "world \<Rightarrow> string \<Rightarrow> error + (pystr list \<times> (pystr, nat) dict)" where
  "read_charset w charset_fp =
     (case read_file w charset_fp of
        Inl err \<Rightarrow> Inl err
      | Inr content \<Rightarrow>
          (case utf8_decode (map of_char content) of
             None \<Rightarrow> Inl UnicodeDecodeError
           | Some txt \<Rightarrow> charset_of_text txt))"

text \<open>
  The lines of a file as sequences of bytes, cut after every line feed and without their
  trailing line feed: the lines of a file that does not decode.
\<close>

definition byte_lines :: "bytes \<Rightarrow> nat list list" where
  "byte_lines content = map strip_trailing_newline (file_lines (map of_char content))"

section \<open>\<open>check_sha1\<close>\<close>

text \<open>
  The loop \<open>while True: data = f.read(n); if not data: break; sha1.update(data)\<close> on the
  part of the file that is still unread. The \<open>hashlib\<close> object is the sequence of bytes it
  has been fed, and its \<open>hexdigest()\<close> is the digest of that sequence.
\<close>

function read_and_update :: "nat \<Rightarrow> bytes \<Rightarrow> bytes \<Rightarrow> bytes" where
  "read_and_update n unread fed =
     (let data = take n unread
      in if data = [] then fed else read_and_update n (drop n unread) (fed @ data))"
  by pat_completeness auto
termination
  by (relation "measure (\<lambda>(n, unread, fed). length unread)") auto

declare read_and_update.simps [simp del]

definition check_sha1 :: "env \<Rightarrow> world \<Rightarrow> string \<Rightarrow> string \<Rightarrow> error + bool" where
  "check_sha1 e w filename sha1_hash =
     (case read_file w filename of
        Inl err \<Rightarrow> Inl err
      | Inr content \<Rightarrow>
          (let sha1_file = sha1_hexdigest e (read_and_update 1048576 content []);
               l = min (length sha1_file) (length sha1_hash)
           in Inr (take l sha1_file = take l sha1_hash)))"

section \<open>\<open>download\<close>\<close>

text \<open>The destination \<open>fname\<close> (lines 147 to 154).\<close>

definition destination :: "env \<Rightarrow> world \<Rightarrow> string \<Rightarrow> string option \<Rightarrow> string" where
  "destination e w url path =
     (case path of
        None \<Rightarrow> basename url
      | Some p \<Rightarrow>
          (let p' = expanduser e p
           in if isdir w p' then join p' (basename url) else p'))"

text \<open>
  The test \<open>overwrite or not os.path.exists(fname) or (sha1_hash and not
  check_sha1(fname, sha1_hash))\<close>, evaluated from left to right; a string counts as true
  when it is not empty.
\<close>

definition must_fetch ::
  "env \<Rightarrow> world \<Rightarrow> string \<Rightarrow> bool \<Rightarrow> string option \<Rightarrow> error + bool" where
  "must_fetch e w fname overwrite sha1_hash =
     (if overwrite then Inr True
      else if \<not> path_exists w fname then Inr True
      else (case sha1_hash of
              None \<Rightarrow> Inr False
            | Some h \<Rightarrow>
                if h = [] then Inr False
                else (case check_sha1 e w fname h of
                        Inl err \<Rightarrow> Inl err
                      | Inr ok \<Rightarrow> Inr (\<not> ok))))"

text \<open>
  The two loops that write the chunks: without a \<open>content-length\<close> header empty chunks are
  skipped, with one every chunk is written. The header only sets the length of the
  progress bar.
\<close>

fun write_chunks :: "bool \<Rightarrow> bytes list \<Rightarrow> bytes \<Rightarrow> bytes" where
  "write_chunks skip_empty [] written = written"
| "write_chunks skip_empty (chunk # cs) written =
     (if skip_empty \<and> chunk = [] then write_chunks skip_empty cs written
      else write_chunks skip_empty cs (written @ chunk))"

text \<open>The body of the \<open>if\<close> (lines 161 to 192), which returns the new state.\<close>

definition fetch ::
  "env \<Rightarrow> world \<Rightarrow> string \<Rightarrow> string \<Rightarrow> string option \<Rightarrow> error + world" where
  "fetch e w url fname sha1_hash =
     (let dname = dirname (abspath e (expanduser e fname));
          w1 = (if \<not> path_exists w dname then makedirs w dname else w);
          r = http e url;
          w2 = w1\<lparr>requests := requests w1 @ [url]\<rparr>
      in if status_code r \<noteq> 200 then Inl RuntimeError
         else
           let total_length = content_length r;
               w3 = write_file w2 fname [];
               w4 = write_file w3 fname (write_chunks (total_length = None) (chunks r) [])
           in (case sha1_hash of
                 None \<Rightarrow> Inr w4
               | Some h \<Rightarrow>
                   if h = [] then Inr w4
                   else (case check_sha1 e w4 fname h of
                           Inl err \<Rightarrow> Inl err
                         | Inr ok \<Rightarrow> if \<not> ok then Inl UserWarning else Inr w4)))"


definition download ::
  "env \<Rightarrow> world \<Rightarrow> string \<Rightarrow> string option \<Rightarrow> bool \<Rightarrow> string option \<Rightarrow>
   error + (string \<times> world)" where
  "download e w url path overwrite sha1_hash =
     (let fname = destination e w url path
      in case must_fetch e w fname overwrite sha1_hash of
           Inl err \<Rightarrow> Inl err
         | Inr False \<Rightarrow> Inr (fname, w)
         | Inr True \<Rightarrow>
             (case fetch e w url fname sha1_hash of
                Inl err \<Rightarrow> Inl err
              | Inr w' \<Rightarrow> Inr (fname, w')))"

section \<open>\<open>get_model_file\<close>\<close>

text \<open>\<open>zf.extractall(par_dir)\<close>: every member is written below \<open>par_dir\<close>, in archive order.\<close>

fun extractall :: "world \<Rightarrow> string \<Rightarrow> (string \<times> bytes) list \<Rightarrow> world" where
  "extractall w par_dir [] = w"
| "extractall w par_dir ((name, b) # members) =
     extractall (write_file w (join par_dir name) b) par_dir members"


section \<open>\<open>imread\<close>\<close>

text \<open>
  A Python variable holds \<open>None\<close> or an object. Calling a method on \<open>None\<close> raises
  \<open>AttributeError\<close>.
\<close>

datatype 'a pyval = PyNone | Obj 'a

text \<open>
  The image libraries: \<open>cv2.imread\<close> returns an array, or \<open>None\<close> when it cannot read the
  file; \<open>astype\<close>, \<open>cv2.cvtColor\<close> and \<open>transpose\<close> map arrays to arrays;
  \<open>Image.open(...).convert('RGB')\<close> followed by \<open>np.asarray\<close> gives an array or raises.
\<close>

record 'img image_lib =
  cv2_imread :: "string \<Rightarrow> 'img pyval"
  astype_float32 :: "'img \<Rightarrow> 'img"
  cvtColor_BGR2RGB :: "'img \<Rightarrow> 'img"
  pil_open_rgb :: "string \<Rightarrow> error + 'img"
  transpose_201 :: "'img \<Rightarrow> 'img"

text \<open>\<open>x.astype('float32')\<close> on the value of a variable.\<close>

definition call_astype :: "'img image_lib \<Rightarrow> 'img pyval \<Rightarrow> error + 'img pyval" where
  "call_astype lib x =
     (case x of PyNone \<Rightarrow> Inl AttributeError | Obj a \<Rightarrow> Inr (Obj (astype_float32 lib a)))"

definition imread :: "'img image_lib \<Rightarrow> string \<Rightarrow> error + 'img" where
  "imread lib img_fp =
     (case call_astype lib (cv2_imread lib img_fp) of
        Inl err \<Rightarrow> Inl err
      | Inr im \<Rightarrow>
          (case (if im = PyNone
                 then pil_open_rgb lib img_fp
                 else (case im of
                         PyNone \<Rightarrow> Inl AttributeError
                       | Obj a \<Rightarrow> Inr (cvtColor_BGR2RGB lib a))) of
             Inl err \<Rightarrow> Inl err
           | Inr im' \<Rightarrow> Inr (transpose_201 lib im')))"

section \<open>\<open>set_logger\<close>\<close>












section \<open>Floating-point arithmetic\<close>

text \<open>
  The arrays of the image functions hold IEEE 754 numbers: \<open>float32\<close> (24 significant
  bits) and \<open>float64\<close> (53 significant bits). A finite floating-point number is a rational
  number, and an operation returns the exact result rounded to the nearest number of the
  format, ties going to the even significand. Overflow to infinity is not part of the
  model: the numbers below stay far from the largest finite number.
\<close>

record format =
  prec :: nat
  emin :: int
  emax :: int

definition binary32 :: format where
  "binary32 = \<lparr>prec = 24, emin = - 126, emax = 127\<rparr>"

definition binary64 :: format where
  "binary64 = \<lparr>prec = 53, emin = - 1022, emax = 1023\<rparr>"

definition pow2 :: "int \<Rightarrow> rat" where
  "pow2 e = (if 0 \<le> e then 2 ^ nat e else 1 / 2 ^ nat (- e))"

text \<open>Rounding to the nearest integer, ties to even.\<close>

definition round_half_even :: "rat \<Rightarrow> int" where
  "round_half_even t =
     (let f = \<lfloor>t\<rfloor>; d = t - of_int f
      in if d < 1 / 2 then f
         else if 1 / 2 < d then f + 1
         else if even f then f else f + 1)"

text \<open>
  The exponent \<open>e\<close> with \<open>2 ^ e \<le> a < 2 ^ (e + 1)\<close> of a positive number, searched from
  \<open>e\<close> in at most \<open>n\<close> steps, and kept within the exponents of the format (below the
  smallest normal number the exponent is \<open>emin\<close>).
\<close>

fun find_exp :: "nat \<Rightarrow> int \<Rightarrow> rat \<Rightarrow> int" where
  "find_exp 0 e a = e"
| "find_exp (Suc n) e a =
     (if pow2 (e + 1) \<le> a then find_exp n (e + 1) a
      else if a < pow2 e then find_exp n (e - 1) a
      else e)"

definition exponent :: "format \<Rightarrow> rat \<Rightarrow> int" where
  "exponent fm a = max (emin fm) (find_exp (nat (emax fm - emin fm)) 0 a)"

definition rnd :: "format \<Rightarrow> rat \<Rightarrow> rat" where
  "rnd fm q =
     (if q = 0 then 0
      else
        let a = \<bar>q\<bar>;
            u = pow2 (exponent fm a - int (prec fm) + 1);
            r = of_int (round_half_even (a / u)) * u
        in if q < 0 then - r else r)"

section \<open>\<open>normalize_img_array\<close> and \<open>restore_img\<close>\<close>

text \<open>
  \<open>RGB_MEAN = np.array([122.67891434, 116.66876762, 104.00698793])\<close> is a \<open>float64\<close>
  array: each decimal literal denotes the nearest \<open>float64\<close> number.
\<close>

definition RGB_MEAN :: "rat \<times> rat \<times> rat" where
  "RGB_MEAN =
     (rnd binary64 (12267891434 / 100000000),
      rnd binary64 (11666876762 / 100000000),
      rnd binary64 (10400698793 / 100000000))"

text \<open>
  One entry of \<open>normalize_img_array(img)\<close> with the default \<open>dtype='float32'\<close>, for the entry
  \<open>x\<close> of \<open>img\<close> and the mean \<open>m\<close> of its channel: \<open>astype\<close> rounds to \<open>float32\<close>; the
  in-place subtraction of the \<open>float64\<close> array is computed in \<open>float64\<close> and stored in the
  \<open>float32\<close> array; the division by the Python number \<open>255.0\<close> is a \<open>float32\<close>
  division.
\<close>

definition normalize_entry :: "rat \<Rightarrow> rat \<Rightarrow> rat" where
  "normalize_entry x m =
     (let img = rnd binary32 x;
          img = rnd binary32 (rnd binary64 (img - m))
      in rnd binary32 (img / 255))"

text \<open>
  One entry of \<open>restore_img(img)\<close>: the product with the Python number \<open>255\<close> is a
  \<open>float32\<close> product, the sum with the \<open>float64\<close> array is a \<open>float64\<close> sum, \<open>clip\<close> bounds
  it, and the cast to \<open>uint8\<close> drops the fractional part.
\<close>

definition restore_entry :: "rat \<Rightarrow> rat \<Rightarrow> int" where
  "restore_entry y m =
     (let img = rnd binary64 (rnd binary32 (y * 255) + m);
          clipped = min (max img 0) 255
      in \<lfloor>clipped\<rfloor>)"

text \<open>
  An image is the list of its pixels, a pixel the triple of its channel values; the mean
  is broadcast over the pixels.
\<close>

definition normalize_img_array :: "(rat \<times> rat \<times> rat) list \<Rightarrow> (rat \<times> rat \<times> rat) list" where
  "normalize_img_array img =
     map (\<lambda>(r, g, b). case RGB_MEAN of (mr, mg, mb) \<Rightarrow>
            (normalize_entry r mr, normalize_entry g mg, normalize_entry b mb)) img"

definition restore_img :: "(rat \<times> rat \<times> rat) list \<Rightarrow> (int \<times> int \<times> int) list" where
  "restore_img img =
     map (\<lambda>(r, g, b). case RGB_MEAN of (mr, mg, mb) \<Rightarrow>
            (restore_entry r mr, restore_entry g mg, restore_entry b mb)) img"

section \<open>A concrete environment\<close>

text \<open>
  An environment on which the functions can be evaluated: one user, one server that
  serves one archive, the digests of the three byte sequences that occur below (they are
  the values that SHA-1 gives them), and a table with one model.
\<close>

definition example_env :: env where
  "example_env =
     \<lparr>homes = (\<lambda>name. if name = [] then Some ''/home/u'' else None),
      abspath = (\<lambda>p. if p \<noteq> [] \<and> hd p = slash then p else ''/cwd/'' @ p),
      http = (\<lambda>url. if url = ''http://zoo/m.zip''
                     then \<lparr>status_code = 200, content_length = Some 3, chunks = [''PK'', ''!'']\<rparr>
                     else \<lparr>status_code = 404, content_length = None, chunks = []\<rparr>),
      sha1_hexdigest = (\<lambda>b. if b = [] then ''da39a3ee5e6b4b0d3255bfef95601890afd80709''
                              else if b = ''PK!'' then ''af2c57c3e641e6891df9e2844e782da84829cb24''
                              else ''c00dbbc9dadfbe1e232e93a729dd4752fade0abf''),
      unzip = (\<lambda>b. if b = ''PK!'' then Some [(''m/a.params'', ''abc'')] else None),
      AVAILABLE_MODELS = [(''m'', (59, ''http://zoo/m.zip''))]\<rparr>"

definition example_world :: world where
  "example_world =
     \<lparr>files = [''/data/empty'' \<mapsto> [], ''/data/old.zip'' \<mapsto> ''old''],
      dirs = {''/data''},
      requests = []\<rparr>"

text \<open>
  Two charset files: \<open>b'a\nb\r\n\xe4\xb8\xad'\<close>, which is UTF-8 for three lines, and
  \<open>b'a\n\xff\n'\<close>, which is not UTF-8.
\<close>

definition charset_world :: world where
  "charset_world =
     \<lparr>files = [''/data/charset.txt'' \<mapsto>
                 [CHR 0x61, CHR 0x0A, CHR 0x62, CHR 0x0D, CHR 0x0A, CHR 0xE4, CHR 0xB8, CHR 0xAD],
               ''/data/bad.txt'' \<mapsto> [CHR 0x61, CHR 0x0A, CHR 0xFF, CHR 0x0A]],
      dirs = {''/data''},
      requests = []\<rparr>"

section \<open>Properties of dictionaries\<close>

lemma map_of_dict_set: "map_of (dict_set k v d) = (map_of d)(k \<mapsto> v)"
  by (induction d) auto

lemma keys_dict_set: "set (map fst (dict_set k v d)) = insert k (set (map fst d))"
  by (induction d) auto

lemma length_dict_set:
  "length (dict_set k v d) = (if k \<in> set (map fst d) then length d else Suc (length d))"
  by (induction d) auto

lemma distinct_dict_set: "distinct (map fst d) \<Longrightarrow> distinct (map fst (dict_set k v d))"
  by (induction d) (auto simp: keys_dict_set simp del: set_map)

lemma dict_set_fresh: "k \<notin> set (map fst d) \<Longrightarrow> dict_set k v d = d @ [(k, v)]"
  by (induction d) auto

lemma enumerate_dict_fresh:
  "distinct xs \<Longrightarrow> set xs \<inter> set (map fst d) = {} \<Longrightarrow>
   enumerate_dict i xs d = d @ zip xs [i ..< i + length xs]"
proof (induction xs arbitrary: i d)
  case Nil
  then show ?case by simp
next
  case (Cons x xs)
  have fresh: "x \<notin> set (map fst d)" using Cons.prems by auto
  have step: "dict_set x i d = d @ [(x, i)]" using fresh by (rule dict_set_fresh)
  have disj: "set xs \<inter> set (map fst (d @ [(x, i)])) = {}" using Cons.prems by auto
  have ih: "enumerate_dict (Suc i) xs (d @ [(x, i)]) = (d @ [(x, i)]) @ zip xs [Suc i ..< Suc i + length xs]"
    by (rule Cons.IH) (use Cons.prems disj in auto)
  have eq: "Suc i + length xs = i + length (x # xs)" by simp
  have upt: "[i ..< i + length (x # xs)] = i # [Suc i ..< Suc i + length xs]"
    unfolding eq by (rule upt_conv_Cons) simp
  show ?case unfolding upt by (simp add: step ih del: upt_Suc)
qed

lemma keys_enumerate_dict:
  "set (map fst (enumerate_dict i xs d)) = set xs \<union> set (map fst d)"
  by (induction xs arbitrary: i d) (auto simp: keys_dict_set simp del: set_map)

lemma distinct_enumerate_dict:
  "distinct (map fst d) \<Longrightarrow> distinct (map fst (enumerate_dict i xs d))"
  by (induction xs arbitrary: i d) (auto simp: distinct_dict_set)

lemma length_enumerate_dict: "length (enumerate_dict 0 xs []) = card (set xs)"
proof -
  have "distinct (map fst (enumerate_dict 0 xs ([] :: ('a \<times> nat) list)))"
    by (rule distinct_enumerate_dict) simp
  then have "card (set (map fst (enumerate_dict 0 xs []))) = length (map fst (enumerate_dict 0 xs []))"
    by (rule distinct_card)
  then show ?thesis by (simp add: keys_enumerate_dict del: set_map)
qed

lemma repeated_iff: "(\<exists>i j. i < j \<and> j < length xs \<and> xs ! i = xs ! j) \<longleftrightarrow> \<not> distinct xs"
  by (metis distinct_conv_nth nat_neq_iff order.strict_trans)

lemma length_ne_card: "length xs \<noteq> card (set xs) \<longleftrightarrow> \<not> distinct xs"
  by (metis card_distinct distinct_card)

section \<open>Lines and their index\<close>

lemma concat_file_lines: "concat (file_lines t) = t"
  by (induction t) (auto split: list.splits)

lemma file_lines_nonempty: "l \<in> set (file_lines t) \<Longrightarrow> l \<noteq> []"
  by (induction t arbitrary: l) (auto split: if_splits list.splits)

lemma file_lines_LF: "l \<in> set (file_lines t) \<Longrightarrow> LF \<notin> set (butlast l)"
proof (induction t arbitrary: l)
  case Nil
  then show ?case by simp
next
  case (Cons c cs)
  show ?case
  proof (cases "c = LF")
    case True
    then show ?thesis using Cons by auto
  next
    case False
    show ?thesis
    proof (cases "file_lines cs")
      case Nil
      then show ?thesis using Cons.prems False by simp
    next
      case (Cons k ks)
      have k: "k \<noteq> []" using file_lines_nonempty [of k cs] Cons by simp
      show ?thesis
      proof (cases "l = c # k")
        case True
        have "LF \<notin> set (butlast k)" using Cons.IH [of k] Cons by simp
        then show ?thesis using True False k by simp
      next
        case False
        then have "l \<in> set (file_lines cs)" using Cons.prems \<open>c \<noteq> LF\<close> Cons by auto
        then show ?thesis by (rule Cons.IH)
      qed
    qed
  qed
qed

lemma rstrip_nl_one: "LF \<notin> set (butlast l) \<Longrightarrow> rstrip_nl l = strip_trailing_newline l"
proof (cases l rule: rev_cases)
  case Nil
  then show ?thesis by (simp add: rstrip_nl_def strip_trailing_newline_def)
next
  case (snoc ys y)
  assume "LF \<notin> set (butlast l)"
  then have ys: "LF \<notin> set ys" using snoc by simp
  have "dropWhile (\<lambda>c. c = LF) (rev ys) = rev ys"
    using ys by (cases "rev ys") (auto simp: rev_eq_Cons_iff)
  then show ?thesis using snoc by (simp add: rstrip_nl_def strip_trailing_newline_def)
qed

lemma alphabet_eq: "map rstrip_nl (file_lines t) = map strip_trailing_newline (file_lines t)"
  by (simp add: rstrip_nl_one file_lines_LF)

lemma charset_of_text_spec:
  "(charset_of_text txt = Inl ValueError \<longleftrightarrow>
      (\<exists>i j. i < j \<and> j < length (charset_lines txt) \<and> charset_lines txt ! i = charset_lines txt ! j)) \<and>
   (charset_of_text txt \<noteq> Inl ValueError \<longrightarrow>
      (\<exists>inv. charset_of_text txt = Inr (charset_lines txt, inv) \<and>
             dict_keys inv = charset_lines txt \<and>
             (\<forall>i < length (charset_lines txt). dict_get inv (charset_lines txt ! i) = Some i)))"
proof -
  define al where "al = charset_lines txt"
  have al: "map rstrip_nl (file_lines (universal_newlines txt)) = al"
    by (simp add: al_def charset_lines_def alphabet_eq)
  have rc: "charset_of_text txt =
      (if \<not> distinct al then Inl ValueError else Inr (al, enumerate_dict 0 al []))"
    by (simp add: charset_of_text_def Let_def al length_enumerate_dict length_ne_card)
  have raise: "charset_of_text txt = Inl ValueError \<longleftrightarrow> \<not> distinct al"
    by (simp add: rc)
  have ok: "\<exists>inv. charset_of_text txt = Inr (al, inv) \<and> dict_keys inv = al \<and>
      (\<forall>i < length al. dict_get inv (al ! i) = Some i)" if d: "distinct al"
  proof -
    have inv: "enumerate_dict 0 al [] = zip al [0 ..< length al]"
      using enumerate_dict_fresh [OF d, of "[]" 0] by simp
    have keys: "dict_keys (zip al [0 ..< length al]) = al"
      by (simp add: dict_keys_def)
    have look: "dict_get (zip al [0 ..< length al]) (al ! i) = Some i" if "i < length al" for i
    proof -
      have "(al ! i, i) \<in> set (zip al [0 ..< length al])"
        using that by (auto simp: set_zip)
      moreover have "distinct (map fst (zip al [0 ..< length al]))" using d by simp
      ultimately show ?thesis by (simp add: dict_get_def)
    qed
    show ?thesis using d inv keys look by (simp add: rc)
  qed
  show ?thesis unfolding al_def [symmetric] using raise ok by (auto simp: repeated_iff)
qed

section \<open>Properties of \<open>load_model_params\<close>\<close>

lemma startswith_model_split:
  assumes "startswith k model_prefix"
  shows "k = model_prefix @ after_first_dot k"
    and "list_index (split_dot_once k) 1 = Inr (after_first_dot k)"
proof -
  have l: "length model_prefix = 6" by (simp add: model_prefix_def)
  have "take 6 k = model_prefix" using assms unfolding startswith_def l .
  then have k: "k = model_prefix @ drop 6 k"
    by (metis append_take_drop_id)
  have a: "after_first_dot (model_prefix @ r) = r" for r
    by (simp add: after_first_dot_def model_prefix_def dot_def)
  have d: "dot \<in> set (model_prefix @ r)" for r
    by (simp add: model_prefix_def dot_def)
  show "k = model_prefix @ after_first_dot k"
    using k a [of "drop 6 k"] by simp
  have "list_index (split_dot_once (model_prefix @ r)) 1 = Inr (after_first_dot (model_prefix @ r))" for r
    using d [of r] by (simp add: split_dot_once_def list_index_def after_first_dot_def)
  then show "list_index (split_dot_once k) 1 = Inr (after_first_dot k)"
    using k by metis
qed

lemma after_first_dot_inj:
  "startswith k model_prefix \<Longrightarrow> startswith k' model_prefix \<Longrightarrow>
   after_first_dot k = after_first_dot k' \<Longrightarrow> k = k'"
  using startswith_model_split(1) by metis

lemma strip_keys_all:
  assumes "\<forall>k \<in> set (map fst kvs). startswith k model_prefix"
    and "distinct (map fst kvs)"
    and "set (map (\<lambda>kv. after_first_dot (fst kv)) kvs) \<inter> set (map fst acc) = {}"
  shows "strip_keys kvs acc = Inr (acc @ map (\<lambda>(k, v). (after_first_dot k, v)) kvs)"
  using assms
proof (induction kvs arbitrary: acc)
  case Nil
  then show ?case by simp
next
  case (Cons kv kvs)
  obtain k v where kv: "kv = (k, v)" by (cases kv)
  have sk: "startswith k model_prefix" using Cons.prems(1) kv by simp
  have fresh: "after_first_dot k \<notin> set (map fst acc)" using Cons.prems(3) kv by auto
  have step: "dict_set (after_first_dot k) v acc = acc @ [(after_first_dot k, v)]"
    using fresh by (rule dict_set_fresh)
  have notin: "after_first_dot k \<notin> set (map (\<lambda>kv. after_first_dot (fst kv)) kvs)"
  proof
    assume "after_first_dot k \<in> set (map (\<lambda>kv. after_first_dot (fst kv)) kvs)"
    then obtain kv' where m: "kv' \<in> set kvs" and e: "after_first_dot k = after_first_dot (fst kv')"
      by auto
    have s': "startswith (fst kv') model_prefix" using Cons.prems(1) m by simp
    have "k = fst kv'" by (rule after_first_dot_inj [OF sk s' e])
    then show False using Cons.prems(2) kv m by auto
  qed
  have disj: "set (map (\<lambda>kv. after_first_dot (fst kv)) kvs) \<inter> set (map fst (acc @ [(after_first_dot k, v)])) = {}"
    using Cons.prems(3) notin by auto
  have ih: "strip_keys kvs (acc @ [(after_first_dot k, v)]) =
      Inr ((acc @ [(after_first_dot k, v)]) @ map (\<lambda>(k, v). (after_first_dot k, v)) kvs)"
    by (rule Cons.IH) (use Cons.prems disj in auto)
  show ?case
    using startswith_model_split(2) [OF sk] by (simp add: kv step ih)
qed

lemma converted_is_spec:
  assumes "distinct (dict_keys sd)"
  shows "converted_state_dict sd = Inr (spec_state_dict sd)"
proof (cases "\<forall>k \<in> set (dict_keys sd). startswith k model_prefix")
  case True
  have "strip_keys sd [] = Inr ([] @ map (\<lambda>(k, v). (after_first_dot k, v)) sd)"
    by (rule strip_keys_all) (use True assms in \<open>auto simp: dict_keys_def\<close>)
  then show ?thesis using True
    by (simp add: converted_state_dict_def spec_state_dict_def list_all_iff)
next
  case False
  then show ?thesis
    by (auto simp: converted_state_dict_def spec_state_dict_def list_all_iff)
qed

text \<open>
  Claim C4. For a checkpoint with a state dictionary, \<open>load_model_params\<close> hands to
  \<open>load_state_dict\<close> of the given model the dictionary of the specification: every key
  replaced by the part after its first dot when all keys start with \<open>'model.'\<close>, and the
  dictionary itself otherwise. That dictionary has as many entries as the original and
  maps the new key of every entry to the value the entry had. When \<open>load_state_dict\<close>
  does not raise, the function returns the model it was given.
\<close>

theorem load_model_params_spec:
  assumes "dict_get checkpoint ''state_dict'' = Some sd"
    and "distinct (dict_keys sd)"
  shows "load_model_params load_state_dict s model checkpoint =
           (case load_state_dict s model (spec_state_dict sd) of
              Inl e \<Rightarrow> Inl e
            | Inr s' \<Rightarrow> Inr (model, s')) \<and>
         length (spec_state_dict sd) = length sd \<and>
         (\<forall>(k, v) \<in> set sd.
            dict_get (spec_state_dict sd)
              (if (\<forall>k' \<in> set (dict_keys sd). startswith k' model_prefix)
               then after_first_dot k else k) = Some v)"
proof -
  have run: "load_model_params load_state_dict s model checkpoint =
           (case load_state_dict s model (spec_state_dict sd) of
              Inl e \<Rightarrow> Inl e
            | Inr s' \<Rightarrow> Inr (model, s'))"
    by (simp add: load_model_params_def assms(1) converted_is_spec [OF assms(2)])
  have len: "length (spec_state_dict sd) = length sd"
    by (simp add: spec_state_dict_def)
  have val: "dict_get (spec_state_dict sd)
              (if (\<forall>k' \<in> set (dict_keys sd). startswith k' model_prefix)
               then after_first_dot k else k) = Some v" if kv: "(k, v) \<in> set sd" for k v
  proof (cases "\<forall>k' \<in> set (dict_keys sd). startswith k' model_prefix")
    case False
    have same: "spec_state_dict sd = sd"
      using False unfolding spec_state_dict_def by (rule if_not_P)
    have "map_of sd k = Some v"
      using kv assms(2) by (simp add: dict_keys_def)
    then have "dict_get (spec_state_dict sd) k = Some v"
      by (simp add: same dict_get_def)
    then show ?thesis using False by (simp only: if_False)
  next
    case True
    let ?sd' = "map (\<lambda>(k, v). (after_first_dot k, v)) sd"
    have inj: "inj_on after_first_dot (set (map fst sd))"
      using True by (auto simp: inj_on_def dict_keys_def intro: after_first_dot_inj)
    have "map fst ?sd' = map after_first_dot (map fst sd)"
      by (simp add: case_prod_beta comp_def)
    then have "distinct (map fst ?sd')"
      using assms(2) inj by (simp add: distinct_map dict_keys_def del: map_map set_map)
    moreover have "(after_first_dot k, v) \<in> set ?sd'"
      using kv by force
    ultimately have "map_of ?sd' (after_first_dot k) = Some v"
      by simp
    then show ?thesis using True by (simp add: spec_state_dict_def dict_get_def)
  qed
  show ?thesis using run len val by blast
qed

theorem load_model_params_spec_witness:
  "dict_get [(''epoch'', []), (''state_dict'', [([109, 111, 100, 101, 108, 46, 97], 10::nat), ([109, 111, 100, 101, 108, 46, 98, 46, 99], 20)])]
      ''state_dict'' = Some [([109, 111, 100, 101, 108, 46, 97], 10), ([109, 111, 100, 101, 108, 46, 98, 46, 99], 20)] \<and>
   distinct (dict_keys [([109, 111, 100, 101, 108, 46, 97], 10::nat), ([109, 111, 100, 101, 108, 46, 98, 46, 99], 20)]) \<and>
   load_model_params (\<lambda>s r sd. Inr (s(r := sd))) (\<lambda>r. []) (0::nat)
      [(''epoch'', []), (''state_dict'', [([109, 111, 100, 101, 108, 46, 97], 10::nat), ([109, 111, 100, 101, 108, 46, 98, 46, 99], 20)])]
     = Inr (0, (\<lambda>r. [])(0 := [([97], 10), ([98, 46, 99], 20)]))"
proof -
  let ?sd = "[([109, 111, 100, 101, 108, 46, 97], 10::nat), ([109, 111, 100, 101, 108, 46, 98, 46, 99], 20)]"
  let ?ck = "[(''epoch'', []), (''state_dict'', ?sd)]"
  have h1: "dict_get ?ck ''state_dict'' = Some ?sd" by (simp add: dict_get_def)
  have h2: "distinct (dict_keys ?sd)" by (simp add: dict_keys_def)
  have sp: "spec_state_dict ?sd = [([97], 10), ([98, 46, 99], 20)]"
    by (simp add: spec_state_dict_def dict_keys_def startswith_def model_prefix_def
        after_first_dot_def dot_def)
  show ?thesis
    using load_model_params_spec [OF h1 h2, of "\<lambda>s r sd. Inr (s(r := sd))" "\<lambda>r. []" 0, THEN conjunct1]
    by (simp add: h1 h2 sp)
qed

section \<open>Properties of \<open>check_sha1\<close>\<close>

lemma read_and_update_all: "0 < n \<Longrightarrow> read_and_update n unread fed = fed @ unread"
proof (induction n unread fed rule: read_and_update.induct)
  case (1 n unread fed)
  show ?case
  proof (cases "take n unread = []")
    case True
    then have "unread = []" using 1(2) by simp
    then show ?thesis by (subst read_and_update.simps) simp
  next
    case False
    have "read_and_update n (drop n unread) (fed @ take n unread) = (fed @ take n unread) @ drop n unread"
      using 1 False by simp
    then show ?thesis using False by (subst read_and_update.simps) (simp add: Let_def)
  qed
qed

lemma check_sha1_eval:
  "files w filename = Some content \<Longrightarrow>
   check_sha1 e w filename h =
     Inr (take (min (length (sha1_hexdigest e content)) (length h)) (sha1_hexdigest e content) =
          take (min (length (sha1_hexdigest e content)) (length h)) h)"
  by (simp add: check_sha1_def read_file_def read_and_update_all Let_def)

text \<open>
  Claim C1, as the code has it. For a file that exists, \<open>check_sha1\<close> hashes the entire
  content and returns whether the digest and the expected hash agree on the length of
  the shorter of the two, that is, whether one is the beginning of the other. When the
  expected hash has the length of the digest, this is equality.
\<close>

theorem check_sha1_prefix:
  assumes "files w filename = Some content"
  shows "check_sha1 e w filename h =
           Inr (take (length h) (sha1_hexdigest e content) = take (length (sha1_hexdigest e content)) h) \<and>
         (length h = length (sha1_hexdigest e content) \<longrightarrow>
            check_sha1 e w filename h = Inr (sha1_hexdigest e content = h))"
proof -
  let ?d = "sha1_hexdigest e content"
  have a: "take (min (length ?d) (length h)) ?d = take (length h) ?d"
    by (simp add: min_def)
  have b: "take (min (length ?d) (length h)) h = take (length ?d) h"
    by (simp add: min_def)
  show ?thesis using check_sha1_eval [OF assms, of e h] by (simp add: a b)
qed

theorem check_sha1_prefix_witness:
  "files example_world ''/data/old.zip'' = Some ''old'' \<and>
   check_sha1 example_env example_world ''/data/old.zip'' ''c00dbbc9'' = Inr True \<and>
   check_sha1 example_env example_world ''/data/old.zip'' ''c00dbbc9dadfbe1e232e93a729dd4752fade0abe'' = Inr False"
proof -
  have f: "files example_world ''/data/old.zip'' = Some ''old''"
    by (simp add: example_world_def)
  have d: "sha1_hexdigest example_env ''old'' = ''c00dbbc9dadfbe1e232e93a729dd4752fade0abf''"
    by (simp add: example_env_def)
  show ?thesis
    using check_sha1_prefix [OF f, of example_env "''c00dbbc9''"]
      check_sha1_prefix [OF f, of example_env "''c00dbbc9dadfbe1e232e93a729dd4752fade0abe''"]
    by (simp add: f d)
qed

text \<open>
  Claim C1, as stated, fails: for the empty file and the empty expected hash the function
  returns \<open>True\<close> (the compared length is 0), and the digest is not the empty string.
\<close>

theorem check_sha1_iff_equal_counterexample:
  "\<not> (check_sha1 example_env example_world ''/data/empty'' [] = Inr True \<longleftrightarrow>
      sha1_hexdigest example_env [] = [])"
  by (simp add: check_sha1_def read_file_def read_and_update_all example_world_def example_env_def)

section \<open>Properties of \<open>download\<close>\<close>










lemma must_fetch_cached:
  assumes "path_exists w fname"
    and "sha1_hash = None \<or> (\<exists>h. sha1_hash = Some h \<and> check_sha1 e w fname h = Inr True)"
  shows "must_fetch e w fname False sha1_hash = Inr False"
  using assms by (auto simp: must_fetch_def)

text \<open>
  Claim C2. When \<open>overwrite\<close> is false, the destination exists and either no hash is given
  or \<open>check_sha1\<close> accepts the existing file, \<open>download\<close> returns the destination path
  and leaves the whole state as it was: no file is written and no URL is requested.
\<close>

theorem download_cached:
  assumes "path_exists w (destination e w url path)"
    and "sha1_hash = None \<or>
         (\<exists>h. sha1_hash = Some h \<and> check_sha1 e w (destination e w url path) h = Inr True)"
  shows "download e w url path False sha1_hash = Inr (destination e w url path, w)"
  using must_fetch_cached [OF assms] by (simp add: download_def)

theorem download_cached_witness:
  "path_exists example_world (destination example_env example_world ''http://zoo/old.zip'' (Some ''/data'')) \<and>
   check_sha1 example_env example_world
     (destination example_env example_world ''http://zoo/old.zip'' (Some ''/data'')) ''c00dbbc9'' = Inr True \<and>
   download example_env example_world ''http://zoo/old.zip'' (Some ''/data'') False (Some ''c00dbbc9'')
     = Inr (''/data/old.zip'', example_world)"
proof -
  have d: "destination example_env example_world ''http://zoo/old.zip'' (Some ''/data'') = ''/data/old.zip''"
    by (simp add: destination_def expanduser_def isdir_def example_world_def join_def basename_def slash_def)
  have p: "path_exists example_world ''/data/old.zip''"
    by (simp add: path_exists_def example_world_def)
  have f: "files example_world ''/data/old.zip'' = Some ''old''"
    by (simp add: example_world_def)
  have c: "check_sha1 example_env example_world ''/data/old.zip'' ''c00dbbc9'' = Inr True"
    by (simp add: check_sha1_eval [OF f] example_env_def)
  show ?thesis
    using download_cached [of example_world example_env "''http://zoo/old.zip''" "Some ''/data''" "Some ''c00dbbc9''"]
    by (simp add: d p c)
qed



section \<open>Properties of \<open>get_model_file\<close>\<close>





lemma extractall_frame:
  "dirs (extractall w par_dir members) = dirs w \<and>
   requests (extractall w par_dir members) = requests w"
  by (induction w par_dir members rule: extractall.induct) (simp_all add: write_file_def)





section \<open>Properties of \<open>read_charset\<close> on a file\<close>

text \<open>
  Claim C9, as the code has it. For a charset file whose bytes are valid UTF-8,
  \<open>read_charset\<close> raises a \<open>ValueError\<close> exactly when two lines of the decoded text are
  equal once the trailing line feed is stripped, and it raises nothing else. Otherwise it
  returns the stripped lines in file order together with a dictionary whose keys are
  those lines, in that order, and which maps the line at index \<open>i\<close> to \<open>i\<close>.
\<close>

theorem read_charset_spec:
  assumes "files w charset_fp = Some content"
    and "utf8_decode (map of_char content) = Some txt"
  shows "((\<exists>e. read_charset w charset_fp = Inl e \<and> is_ValueError e) \<longleftrightarrow>
            (\<exists>i j. i < j \<and> j < length (charset_lines txt) \<and> charset_lines txt ! i = charset_lines txt ! j)) \<and>
         (\<forall>e. read_charset w charset_fp = Inl e \<longrightarrow> e = ValueError) \<and>
         (read_charset w charset_fp \<noteq> Inl ValueError \<longrightarrow>
            (\<exists>inv. read_charset w charset_fp = Inr (charset_lines txt, inv) \<and>
                   dict_keys inv = charset_lines txt \<and>
                   (\<forall>i < length (charset_lines txt). dict_get inv (charset_lines txt ! i) = Some i)))"
proof -
  have rc: "read_charset w charset_fp = charset_of_text txt"
    by (simp add: read_charset_def read_file_def assms)
  have sole: "e = ValueError" if "charset_of_text txt = Inl e" for e
    using that by (simp add: charset_of_text_def Let_def split: if_splits)
  have ve: "(\<exists>e. charset_of_text txt = Inl e \<and> is_ValueError e) \<longleftrightarrow> charset_of_text txt = Inl ValueError"
    using sole by (auto simp: is_ValueError_def)
  have main: "charset_of_text txt = Inl ValueError \<longleftrightarrow>
      (\<exists>i j. i < j \<and> j < length (charset_lines txt) \<and> charset_lines txt ! i = charset_lines txt ! j)"
    using charset_of_text_spec [of "txt"] by blast
  have rest: "charset_of_text txt \<noteq> Inl ValueError \<longrightarrow>
            (\<exists>inv. charset_of_text txt = Inr (charset_lines txt, inv) \<and>
                   dict_keys inv = charset_lines txt \<and>
                   (\<forall>i < length (charset_lines txt). dict_get inv (charset_lines txt ! i) = Some i))"
    using charset_of_text_spec [of "txt"] by blast
  show ?thesis
    unfolding rc ve
    using main rest sole by blast
qed

theorem read_charset_spec_witness:
  "files charset_world ''/data/charset.txt'' =
     Some [CHR 0x61, CHR 0x0A, CHR 0x62, CHR 0x0D, CHR 0x0A, CHR 0xE4, CHR 0xB8, CHR 0xAD] \<and>
   utf8_decode (map of_char [CHR 0x61, CHR 0x0A, CHR 0x62, CHR 0x0D, CHR 0x0A, CHR 0xE4, CHR 0xB8, CHR 0xAD])
     = Some [97, 10, 98, 13, 10, 20013] \<and>
   read_charset charset_world ''/data/charset.txt'' \<noteq> Inl ValueError \<and>
   (\<exists>inv. read_charset charset_world ''/data/charset.txt'' = Inr ([[97], [98], [20013]], inv) \<and>
          dict_keys inv = [[97], [98], [20013]] \<and>
          dict_get inv [97] = Some 0 \<and> dict_get inv [98] = Some 1 \<and> dict_get inv [20013] = Some 2)"
proof -
  have f: "files charset_world ''/data/charset.txt'' =
     Some [CHR 0x61, CHR 0x0A, CHR 0x62, CHR 0x0D, CHR 0x0A, CHR 0xE4, CHR 0xB8, CHR 0xAD]"
    by (simp add: charset_world_def)
  have d: "utf8_decode (map of_char [CHR 0x61, CHR 0x0A, CHR 0x62, CHR 0x0D, CHR 0x0A, CHR 0xE4, CHR 0xB8, CHR 0xAD])
     = Some [97, 10, 98, 13, 10, 20013]"
    by (simp add: cont_def)
  have l: "charset_lines [97, 10, 98, 13, 10, 20013] = [[97], [98], [20013]]"
    by (simp add: charset_lines_def strip_trailing_newline_def LF_def CR_def)
  have v: "read_charset charset_world ''/data/charset.txt'' \<noteq> Inl ValueError"
    by (simp add: read_charset_def read_file_def f d charset_of_text_def rstrip_nl_def LF_def CR_def)
  from read_charset_spec [OF f d] v obtain inv
    where r: "read_charset charset_world ''/data/charset.txt'' = Inr (charset_lines [97, 10, 98, 13, 10, 20013], inv)"
      and k: "dict_keys inv = charset_lines [97, 10, 98, 13, 10, 20013]"
      and a: "\<forall>i < length (charset_lines [97, 10, 98, 13, 10, 20013]).
                dict_get inv (charset_lines [97, 10, 98, 13, 10, 20013] ! i) = Some i"
    by blast
  have "dict_get inv [97] = Some 0" "dict_get inv [98] = Some 1" "dict_get inv [20013] = Some 2"
    using a [rule_format, of 0] a [rule_format, of 1] a [rule_format, of 2] by (simp_all add: l)
  then show ?thesis using f d v r k by (simp add: l)
qed

text \<open>
  Claim C9, as stated, fails: the file \<open>b'a\n\xff\n'\<close> has two different lines, and
  \<open>read_charset\<close> raises \<open>UnicodeDecodeError\<close>, which is a \<open>ValueError\<close>.
\<close>

theorem read_charset_invalid_utf8_counterexample:
  "read_charset charset_world ''/data/bad.txt'' = Inl UnicodeDecodeError \<and>
   is_ValueError UnicodeDecodeError \<and>
   byte_lines [CHR 0x61, CHR 0x0A, CHR 0xFF, CHR 0x0A] = [[97], [255]] \<and>
   distinct (byte_lines [CHR 0x61, CHR 0x0A, CHR 0xFF, CHR 0x0A])"
  by (simp add: read_charset_def read_file_def charset_world_def is_ValueError_def
      byte_lines_def strip_trailing_newline_def LF_def)

section \<open>Properties of \<open>imread\<close>\<close>

lemma call_astype_not_None: "call_astype lib x \<noteq> Inr PyNone"
  by (simp add: call_astype_def split: pyval.splits)

text \<open>
  Claim C8. When \<open>cv2.imread\<close> returns \<open>None\<close>, the call of \<open>astype\<close> on it raises
  \<open>AttributeError\<close> before the test \<open>im is None\<close> is reached. The branch that opens the
  image with PIL is never taken: the result of \<open>imread\<close> does not depend on what PIL
  would return.
\<close>

theorem imread_pil_unreachable:
  "(cv2_imread lib img_fp = PyNone \<longrightarrow> imread lib img_fp = Inl AttributeError) \<and>
   imread (lib\<lparr>pil_open_rgb := other_pil\<rparr>) img_fp = imread lib img_fp"
proof -
  have a: "imread lib img_fp = Inl AttributeError" if "cv2_imread lib img_fp = PyNone"
    using that by (simp add: imread_def call_astype_def)
  have b: "imread (lib\<lparr>pil_open_rgb := other_pil\<rparr>) img_fp = imread lib img_fp"
    by (cases "cv2_imread lib img_fp") (simp_all add: imread_def call_astype_def)
  show ?thesis using a b by blast
qed

theorem imread_pil_unreachable_witness:
  "cv2_imread \<lparr>cv2_imread = (\<lambda>p. if p = ''a.png'' then Obj [1::nat, 2, 3] else PyNone),
       astype_float32 = id, cvtColor_BGR2RGB = rev, pil_open_rgb = (\<lambda>p. Inr [7, 7, 7]),
       transpose_201 = id\<rparr> ''b.gif'' = PyNone \<and>
   imread \<lparr>cv2_imread = (\<lambda>p. if p = ''a.png'' then Obj [1::nat, 2, 3] else PyNone),
       astype_float32 = id, cvtColor_BGR2RGB = rev, pil_open_rgb = (\<lambda>p. Inr [7, 7, 7]),
       transpose_201 = id\<rparr> ''b.gif'' = Inl AttributeError"
  using imread_pil_unreachable [of "\<lparr>cv2_imread = (\<lambda>p. if p = ''a.png'' then Obj [1::nat, 2, 3] else PyNone),
       astype_float32 = id, cvtColor_BGR2RGB = rev, pil_open_rgb = (\<lambda>p. Inr [7, 7, 7]),
       transpose_201 = id\<rparr>" "''b.gif''"]
  by simp

section \<open>Properties of \<open>set_logger\<close>\<close>



section \<open>Properties of \<open>normalize_img_array\<close> and \<open>restore_img\<close>\<close>

lemma pow2_powi: "pow2 e = 2 powi e"
  by (simp add: pow2_def power_int_def power_inverse [symmetric] inverse_eq_divide power_one_over)

lemma pow2_pos: "0 < pow2 e"
  by (simp add: pow2_powi zero_less_power_int)

lemma pow2_mono: "e \<le> e' \<Longrightarrow> pow2 e \<le> pow2 e'"
  by (simp add: pow2_powi power_int_increasing)

lemma pow2_strict_mono: "e < e' \<Longrightarrow> pow2 e < pow2 e'"
  by (simp add: pow2_powi power_int_strict_increasing)

lemma pow2_less_cancel: "pow2 e < pow2 e' \<Longrightarrow> e < e'"
  using pow2_mono [of e' e] by (cases "e < e'") auto

lemma pow2_add: "pow2 (a + b) = pow2 a * pow2 b"
  by (simp add: pow2_powi power_int_add)

lemma pow2_nonpos_int: "j \<le> 0 \<Longrightarrow> 1 / pow2 j = of_int (2 ^ nat (- j))"
  by (cases "j = 0") (simp_all add: pow2_def)

lemma find_exp_correct:
  "pow2 e \<le> a \<Longrightarrow> a < pow2 (e + 1) \<Longrightarrow> \<bar>e - e0\<bar> \<le> int n \<Longrightarrow> find_exp n e0 a = e"
proof (induction n arbitrary: e0)
  case 0
  then show ?case by simp
next
  case (Suc n)
  consider "e0 = e" | "e0 < e" | "e < e0" by linarith
  then show ?case
  proof cases
    case 1
    then show ?thesis using Suc.prems by simp
  next
    case 2
    then have "pow2 (e0 + 1) \<le> pow2 e" by (intro pow2_mono) simp
    then have up: "pow2 (e0 + 1) \<le> a" using Suc.prems(1) by simp
    have "find_exp n (e0 + 1) a = e"
      by (rule Suc.IH) (use Suc.prems 2 in auto)
    then show ?thesis using up by simp
  next
    case 3
    then have "pow2 (e + 1) \<le> pow2 e0" by (intro pow2_mono) simp
    then have lt: "a < pow2 e0" using Suc.prems(2) by simp
    then have nup: "\<not> pow2 (e0 + 1) \<le> a"
      using pow2_mono [of e0 "e0 + 1"] by simp
    have "find_exp n (e0 - 1) a = e"
      by (rule Suc.IH) (use Suc.prems 3 in auto)
    then show ?thesis using lt nup by simp
  qed
qed

lemma find_exp_upper: "find_exp n e0 a \<le> e0 \<or> pow2 (find_exp n e0 a) \<le> a"
proof (induction n arbitrary: e0)
  case 0
  then show ?case by simp
next
  case (Suc n)
  show ?case
  proof (cases "pow2 (e0 + 1) \<le> a")
    case True
    then show ?thesis using Suc.IH [of "e0 + 1"]
      by (cases "find_exp n (e0 + 1) a = e0 + 1") auto
  next
    case False
    then show ?thesis using Suc.IH [of "e0 - 1"] by auto
  qed
qed

lemma round_half_even_le: "t \<le> of_int n \<Longrightarrow> round_half_even t \<le> n"
proof -
  assume t: "t \<le> of_int n"
  have f: "\<lfloor>t\<rfloor> \<le> n" using t by (simp add: floor_le_iff)
  show ?thesis
  proof (cases "\<lfloor>t\<rfloor> = n")
    case True
    have "of_int \<lfloor>t\<rfloor> \<le> t" by simp
    then have "t = of_int \<lfloor>t\<rfloor>" using t True by simp
    then have "t - of_int \<lfloor>t\<rfloor> = 0" by simp
    then show ?thesis using True by (simp add: round_half_even_def Let_def)
  next
    case False
    then have "\<lfloor>t\<rfloor> + 1 \<le> n" using f by simp
    then show ?thesis by (simp add: round_half_even_def Let_def)
  qed
qed

lemma round_half_even_ge: "of_int n \<le> t \<Longrightarrow> n \<le> round_half_even t"
proof -
  assume "of_int n \<le> t"
  then have "n \<le> \<lfloor>t\<rfloor>" by (simp add: le_floor_iff)
  then show ?thesis by (simp add: round_half_even_def Let_def)
qed

lemma exponent_small:
  assumes "a < pow2 (int (prec fm))" "emin fm < int (prec fm)" "0 < prec fm"
  shows "exponent fm a - int (prec fm) + 1 \<le> 0"
proof -
  let ?fe = "find_exp (nat (emax fm - emin fm)) 0 a"
  have "?fe < int (prec fm)"
  proof (cases "?fe \<le> 0")
    case True
    then show ?thesis using assms(3) by simp
  next
    case False
    then have "pow2 ?fe \<le> a" using find_exp_upper [of "nat (emax fm - emin fm)" 0 a] by simp
    then have "pow2 ?fe < pow2 (int (prec fm))" using assms(1) by simp
    then show ?thesis by (rule pow2_less_cancel)
  qed
  then show ?thesis using assms(2) by (simp add: exponent_def)
qed

lemma rnd_pos:
  "0 < q \<Longrightarrow> rnd fm q =
     of_int (round_half_even (q / pow2 (exponent fm q - int (prec fm) + 1))) *
       pow2 (exponent fm q - int (prec fm) + 1)"
  by (simp add: rnd_def Let_def)

lemma rnd_neg: "rnd fm (- q) = - rnd fm q"
  by (simp add: rnd_def Let_def)

lemma rnd_zero: "rnd fm 0 = 0"
  by (simp add: rnd_def)

lemma rnd_pos_bounds:
  assumes q: "0 < q" and small: "q < pow2 (int (prec fm))"
    and fm: "emin fm < int (prec fm)" "0 < prec fm"
  shows "q \<le> of_int hi \<Longrightarrow> rnd fm q \<le> of_int hi"
    and "of_int lo \<le> q \<Longrightarrow> of_int lo \<le> rnd fm q"
proof -
  let ?j = "exponent fm q - int (prec fm) + 1"
  let ?u = "pow2 ?j"
  let ?K = "(2::int) ^ nat (- ?j)"
  have j: "?j \<le> 0" using small fm by (rule exponent_small)
  have u: "0 < ?u" by (rule pow2_pos)
  have K: "1 / ?u = of_int ?K" using j by (rule pow2_nonpos_int)
  have Ku: "of_int ?K * ?u = 1" using K u by (simp add: field_simps)
  have scale: "of_int n / ?u = of_int (n * ?K)" for n
  proof -
    have "of_int n / ?u = of_int n * (1 / ?u)" by simp
    also have "\<dots> = of_int n * of_int ?K" by (simp only: K)
    finally show ?thesis by simp
  qed
  have unscale: "of_int (n * ?K) * ?u = of_int n" for n
    using Ku by (simp add: mult.assoc)
  {
    assume "q \<le> of_int hi"
    then have "q / ?u \<le> of_int hi / ?u" using u by (simp add: divide_right_mono)
    then have "q / ?u \<le> of_int (hi * ?K)" by (simp only: scale)
    then have "round_half_even (q / ?u) \<le> hi * ?K" by (rule round_half_even_le)
    then have "(of_int (round_half_even (q / ?u)) :: rat) \<le> of_int (hi * ?K)" by (simp only: of_int_le_iff)
    then have "of_int (round_half_even (q / ?u)) * ?u \<le> of_int (hi * ?K) * ?u"
      using u by (simp add: mult_right_mono)
    then show "rnd fm q \<le> of_int hi" by (simp only: rnd_pos [OF q] unscale)
  }
  {
    assume "of_int lo \<le> q"
    then have "of_int lo / ?u \<le> q / ?u" using u by (simp add: divide_right_mono)
    then have "of_int (lo * ?K) \<le> q / ?u" by (simp only: scale)
    then have "lo * ?K \<le> round_half_even (q / ?u)" by (rule round_half_even_ge)
    then have "(of_int (lo * ?K) :: rat) \<le> of_int (round_half_even (q / ?u))" by (simp only: of_int_le_iff)
    then have "of_int (lo * ?K) * ?u \<le> of_int (round_half_even (q / ?u)) * ?u"
      using u by (simp add: mult_right_mono)
    then show "of_int lo \<le> rnd fm q" by (simp only: rnd_pos [OF q] unscale)
  }
qed

lemma rnd_bounds:
  assumes lo: "of_int lo \<le> q" and hi: "q \<le> of_int hi"
    and small: "\<bar>q\<bar> < pow2 (int (prec fm))"
    and fm: "emin fm < int (prec fm)" "0 < prec fm"
  shows "of_int lo \<le> rnd fm q \<and> rnd fm q \<le> of_int hi"
proof -
  consider "q = 0" | "0 < q" | "q < 0" by linarith
  then show ?thesis
  proof cases
    case 1
    then show ?thesis using lo hi by (simp add: rnd_zero)
  next
    case 2
    then have "q < pow2 (int (prec fm))" using small by simp
    then show ?thesis using rnd_pos_bounds [OF 2 _ fm] lo hi by blast
  next
    case 3
    then have p: "0 < - q" and s: "- q < pow2 (int (prec fm))" using small by simp_all
    have a: "- q \<le> of_int (- lo)" using lo by simp
    have b: "of_int (- hi) \<le> - q" using hi by simp
    have "rnd fm (- q) \<le> of_int (- lo)" using rnd_pos_bounds(1) [OF p s fm a] .
    moreover have "of_int (- hi) \<le> rnd fm (- q)" using rnd_pos_bounds(2) [OF p s fm b] .
    ultimately show ?thesis by (simp add: rnd_neg)
  qed
qed

lemma rnd32_bounds:
  "of_int lo \<le> q \<Longrightarrow> q \<le> of_int hi \<Longrightarrow> \<bar>q\<bar> < 16777216 \<Longrightarrow>
   of_int lo \<le> rnd binary32 q \<and> rnd binary32 q \<le> of_int hi"
  by (rule rnd_bounds) (simp_all add: binary32_def pow2_def)

lemma rnd64_bounds:
  "of_int lo \<le> q \<Longrightarrow> q \<le> of_int hi \<Longrightarrow> \<bar>q\<bar> < 16777216 \<Longrightarrow>
   of_int lo \<le> rnd binary64 q \<and> rnd binary64 q \<le> of_int hi"
  by (rule rnd_bounds) (simp_all add: binary64_def pow2_def)

lemma RGB_MEAN_bounds:
  "case RGB_MEAN of (mr, mg, mb) \<Rightarrow>
     104 \<le> mr \<and> mr \<le> 123 \<and> 104 \<le> mg \<and> mg \<le> 123 \<and> 104 \<le> mb \<and> mb \<le> 123"
proof -
  have "of_int 104 \<le> rnd binary64 (12267891434 / 100000000) \<and>
        rnd binary64 (12267891434 / 100000000) \<le> of_int 123"
    by (rule rnd64_bounds) simp_all
  moreover have "of_int 104 \<le> rnd binary64 (11666876762 / 100000000) \<and>
        rnd binary64 (11666876762 / 100000000) \<le> of_int 123"
    by (rule rnd64_bounds) simp_all
  moreover have "of_int 104 \<le> rnd binary64 (10400698793 / 100000000) \<and>
        rnd binary64 (10400698793 / 100000000) \<le> of_int 123"
    by (rule rnd64_bounds) simp_all
  ultimately show ?thesis by (simp add: RGB_MEAN_def)
qed

lemma normalize_entry_bounds:
  assumes x: "0 \<le> x" "x \<le> 255" and m: "104 \<le> m" "m \<le> 123"
  shows "- 1 \<le> normalize_entry x m \<and> normalize_entry x m \<le> 1"
proof -
  let ?a = "rnd binary32 x"
  let ?b = "rnd binary64 (?a - m)"
  let ?c = "rnd binary32 ?b"
  have x3: "\<bar>x\<bar> < 16777216" using x by (simp add: abs_less_iff)
  have a: "0 \<le> ?a \<and> ?a \<le> 255"
    using rnd32_bounds [of 0 x 255, OF _ _ x3] x by simp
  have a1: "of_int (- 123) \<le> ?a - m" "?a - m \<le> of_int 151" "\<bar>?a - m\<bar> < 16777216"
    using a m by (simp_all add: abs_less_iff)
  have b: "of_int (- 123) \<le> ?b \<and> ?b \<le> of_int 151"
    by (rule rnd64_bounds [OF a1])
  have b1: "of_int (- 123) \<le> ?b" "?b \<le> of_int 151" "\<bar>?b\<bar> < 16777216"
    using b by (simp_all add: abs_less_iff)
  have c: "of_int (- 123) \<le> ?c \<and> ?c \<le> of_int 151"
    by (rule rnd32_bounds [OF b1])
  have d: "of_int (- 1) \<le> ?c / 255" "?c / 255 \<le> of_int 1" "\<bar>?c / 255\<bar> < 16777216"
    using c by (simp_all add: abs_less_iff)
  have "of_int (- 1) \<le> rnd binary32 (?c / 255) \<and> rnd binary32 (?c / 255) \<le> of_int 1"
    by (rule rnd32_bounds [OF d])
  then show ?thesis by (simp add: normalize_entry_def Let_def)
qed

text \<open>
  Claim C7. For an image whose channel values lie in \<open>[0, 255]\<close>, every entry of
  \<open>normalize_img_array(img)\<close> is the \<open>float32\<close> value of \<open>(img - RGB_MEAN) / 255.0\<close>
  (the difference is computed in \<open>float64\<close> and stored as \<open>float32\<close>, the quotient is
  computed in \<open>float32\<close>), and every entry lies within \<open>[-1, 1]\<close>.
\<close>

theorem normalize_img_array_spec:
  assumes "\<forall>(r, g, b) \<in> set img. 0 \<le> r \<and> r \<le> 255 \<and> 0 \<le> g \<and> g \<le> 255 \<and> 0 \<le> b \<and> b \<le> 255"
  shows "normalize_img_array img =
           map (\<lambda>(r, g, b). case RGB_MEAN of (mr, mg, mb) \<Rightarrow>
             (rnd binary32 (rnd binary32 (rnd binary64 (rnd binary32 r - mr)) / 255),
              rnd binary32 (rnd binary32 (rnd binary64 (rnd binary32 g - mg)) / 255),
              rnd binary32 (rnd binary32 (rnd binary64 (rnd binary32 b - mb)) / 255))) img \<and>
         (\<forall>(r, g, b) \<in> set (normalize_img_array img).
            - 1 \<le> r \<and> r \<le> 1 \<and> - 1 \<le> g \<and> g \<le> 1 \<and> - 1 \<le> b \<and> b \<le> 1)"
proof -
  obtain mr mg mb where M: "RGB_MEAN = (mr, mg, mb)" by (cases RGB_MEAN) auto
  have mb: "104 \<le> mr" "mr \<le> 123" "104 \<le> mg" "mg \<le> 123" "104 \<le> mb" "mb \<le> 123"
    using RGB_MEAN_bounds by (simp_all add: M)
  have first: "normalize_img_array img =
           map (\<lambda>(r, g, b). case RGB_MEAN of (mr, mg, mb) \<Rightarrow>
             (rnd binary32 (rnd binary32 (rnd binary64 (rnd binary32 r - mr)) / 255),
              rnd binary32 (rnd binary32 (rnd binary64 (rnd binary32 g - mg)) / 255),
              rnd binary32 (rnd binary32 (rnd binary64 (rnd binary32 b - mb)) / 255))) img"
    by (simp add: normalize_img_array_def normalize_entry_def Let_def)
  have second: "- 1 \<le> r' \<and> r' \<le> 1 \<and> - 1 \<le> g' \<and> g' \<le> 1 \<and> - 1 \<le> b' \<and> b' \<le> 1"
    if "(r', g', b') \<in> set (normalize_img_array img)" for r' g' b'
  proof -
    from that obtain r g b where px: "(r, g, b) \<in> set img"
      and eq: "r' = normalize_entry r mr" "g' = normalize_entry g mg" "b' = normalize_entry b mb"
      by (auto simp: normalize_img_array_def M)
    have rng: "0 \<le> r" "r \<le> 255" "0 \<le> g" "g \<le> 255" "0 \<le> b" "b \<le> 255"
      using assms px by auto
    show ?thesis
      using normalize_entry_bounds [OF rng(1,2) mb(1,2)]
        normalize_entry_bounds [OF rng(3,4) mb(3,4)]
        normalize_entry_bounds [OF rng(5,6) mb(5,6)]
      by (simp add: eq)
  qed
  show ?thesis using first second by blast
qed

theorem normalize_img_array_spec_witness:
  "(0 :: rat) \<le> 1 \<and> (1 :: rat) \<le> 255 \<and> (0 :: rat) \<le> 128 \<and> (128 :: rat) \<le> 255 \<and>
   (0 :: rat) \<le> 255 \<and> (255 :: rat) \<le> 255 \<and>
   (\<exists>r g b. normalize_img_array [(1, 128, 255)] = [(r, g, b)] \<and>
      - 1 \<le> r \<and> r \<le> 1 \<and> - 1 \<le> g \<and> g \<le> 1 \<and> - 1 \<le> b \<and> b \<le> 1)"
proof -
  have h: "\<forall>(r, g, b) \<in> set [(1 :: rat, 128 :: rat, 255 :: rat)]. 0 \<le> r \<and> r \<le> 255 \<and> 0 \<le> g \<and> g \<le> 255 \<and> 0 \<le> b \<and> b \<le> 255"
    by simp
  obtain r g b where e: "normalize_img_array [(1, 128, 255)] = [(r, g, b)]"
    by (simp add: normalize_img_array_def RGB_MEAN_def)
  have "- 1 \<le> r \<and> r \<le> 1 \<and> - 1 \<le> g \<and> g \<le> 1 \<and> - 1 \<le> b \<and> b \<le> 1"
    using normalize_img_array_spec [OF h, THEN conjunct2] by (simp add: e)
  then show ?thesis using e by simp
qed

subsection \<open>The round trip at one pixel\<close>

text \<open>
  The values that the roundings take on the way from the pixel \<open>(1, 128, 255)\<close> through
  \<open>normalize_img_array\<close> and back through \<open>restore_img\<close>.
\<close>

lemma floor_rat_numeral: "\<lfloor>numeral a / numeral b :: rat\<rfloor> = numeral a div numeral b"
  by (metis floor_divide_of_int_eq of_int_numeral)

lemma exponent_at:
  assumes "pow2 e \<le> a" "a < pow2 (e + 1)" "emin fm \<le> e" "\<bar>e\<bar> \<le> emax fm - emin fm"
  shows "exponent fm a = e"
proof -
  have "\<bar>e - 0\<bar> \<le> int (nat (emax fm - emin fm))" using assms(4) by linarith
  then have "find_exp (nat (emax fm - emin fm)) 0 a = e"
    by (rule find_exp_correct [OF assms(1,2)])
  then show ?thesis using assms(3) by (simp add: exponent_def)
qed

lemma rnd_at:
  assumes "pow2 e \<le> \<bar>q\<bar>" "\<bar>q\<bar> < pow2 (e + 1)" "emin fm \<le> e" "\<bar>e\<bar> \<le> emax fm - emin fm"
  shows "rnd fm q =
     (if q < 0 then - 1 else 1) *
       (of_int (round_half_even (\<bar>q\<bar> / pow2 (e - int (prec fm) + 1))) *
        pow2 (e - int (prec fm) + 1))"
proof -
  have nz: "q \<noteq> 0" using assms(1) pow2_pos [of e] by auto
  have ex: "exponent fm \<bar>q\<bar> = e" by (rule exponent_at [OF assms])
  show ?thesis by (simp only: rnd_def Let_def ex) (use nz in simp)
qed

lemma rnd_value_1: "rnd binary64 (6133945717 / 50000000) = 1079095142398127 / 8796093022208"
  using rnd_at [of "6" "6133945717 / 50000000" binary64]
  by (simp add: binary64_def pow2_def round_half_even_def Let_def floor_rat_numeral)

lemma rnd_value_2: "rnd binary64 (5833438381 / 50000000) = 8209834662175109 / 70368744177664"
  using rnd_at [of "6" "5833438381 / 50000000" binary64]
  by (simp add: binary64_def pow2_def round_half_even_def Let_def floor_rat_numeral)

lemma rnd_value_3: "rnd binary64 (10400698793 / 100000000) = 7318841126335557 / 70368744177664"
  using rnd_at [of "6" "10400698793 / 100000000" binary64]
  by (simp add: binary64_def pow2_def round_half_even_def Let_def floor_rat_numeral)

lemma rnd_value_4: "rnd binary32 (1) = 1"
  using rnd_at [of "0" "1" binary32]
  by (simp add: binary32_def pow2_def round_half_even_def Let_def floor_rat_numeral)

lemma rnd_value_5: "rnd binary64 (- (1070299049375919 / 8796093022208)) = - (1070299049375919 / 8796093022208)"
  using rnd_at [of "6" "- (1070299049375919 / 8796093022208)" binary64]
  by (simp add: binary64_def pow2_def round_half_even_def Let_def floor_rat_numeral)

lemma rnd_value_6: "rnd binary32 (- (1070299049375919 / 8796093022208)) = - (15948699 / 131072)"
  using rnd_at [of "6" "- (1070299049375919 / 8796093022208)" binary32]
  by (simp add: binary32_def pow2_def round_half_even_def Let_def floor_rat_numeral)

lemma rnd_value_7: "rnd binary32 (- (5316233 / 11141120)) = - (16011243 / 33554432)"
  using rnd_at [of "- 2" "- (5316233 / 11141120)" binary32]
  by (simp add: binary32_def pow2_def round_half_even_def Let_def floor_rat_numeral)

lemma rnd_value_8: "rnd binary32 (128) = 128"
  using rnd_at [of "7" "128" binary32]
  by (simp add: binary32_def pow2_def round_half_even_def Let_def floor_rat_numeral)

lemma rnd_value_9: "rnd binary64 (797364592565883 / 70368744177664) = 797364592565883 / 70368744177664"
  using rnd_at [of "3" "797364592565883 / 70368744177664" binary64]
  by (simp add: binary64_def pow2_def round_half_even_def Let_def floor_rat_numeral)

lemma rnd_value_10: "rnd binary32 (797364592565883 / 70368744177664) = 5940829 / 524288"
  using rnd_at [of "3" "797364592565883 / 70368744177664" binary32]
  by (simp add: binary32_def pow2_def round_half_even_def Let_def floor_rat_numeral)

lemma rnd_value_11: "rnd binary32 (5940829 / 133693440) = 11928253 / 268435456"
  using rnd_at [of "- 5" "5940829 / 133693440" binary32]
  by (simp add: binary32_def pow2_def round_half_even_def Let_def floor_rat_numeral)

lemma rnd_value_12: "rnd binary32 (255) = 255"
  using rnd_at [of "7" "255" binary32]
  by (simp add: binary32_def pow2_def round_half_even_def Let_def floor_rat_numeral)

lemma rnd_value_13: "rnd binary64 (10625188638968763 / 70368744177664) = 2656297159742191 / 17592186044416"
  using rnd_at [of "7" "10625188638968763 / 70368744177664" binary64]
  by (simp add: binary64_def pow2_def round_half_even_def Let_def floor_rat_numeral)

lemma rnd_value_14: "rnd binary32 (2656297159742191 / 17592186044416) = 4947739 / 32768"
  using rnd_at [of "7" "2656297159742191 / 17592186044416" binary32]
  by (simp add: binary32_def pow2_def round_half_even_def Let_def floor_rat_numeral)

lemma rnd_value_15: "rnd binary32 (4947739 / 8355840) = 2483571 / 4194304"
  using rnd_at [of "- 1" "4947739 / 8355840" binary32]
  by (simp add: binary32_def pow2_def round_half_even_def Let_def floor_rat_numeral)

lemma rnd_value_16: "rnd binary32 (- (4082866965 / 33554432)) = - (15948699 / 131072)"
  using rnd_at [of "6" "- (4082866965 / 33554432)" binary32]
  by (simp add: binary32_def pow2_def round_half_even_def Let_def floor_rat_numeral)

lemma rnd_value_17: "rnd binary64 (8796070230191 / 8796093022208) = 8796070230191 / 8796093022208"
  using rnd_at [of "- 1" "8796070230191 / 8796093022208" binary64]
  by (simp add: binary64_def pow2_def round_half_even_def Let_def floor_rat_numeral)

lemma rnd_value_18: "rnd binary32 (3041704515 / 268435456) = 5940829 / 524288"
  using rnd_at [of "3" "3041704515 / 268435456" binary32]
  by (simp add: binary32_def pow2_def round_half_even_def Let_def floor_rat_numeral)

lemma rnd_value_19: "rnd binary64 (9007199232991621 / 70368744177664) = 9007199232991621 / 70368744177664"
  using rnd_at [of "6" "9007199232991621 / 70368744177664" binary64]
  by (simp add: binary64_def pow2_def round_half_even_def Let_def floor_rat_numeral)

lemma rnd_value_20: "rnd binary32 (633310605 / 4194304) = 4947739 / 32768"
  using rnd_at [of "7" "633310605 / 4194304" binary32]
  by (simp add: binary32_def pow2_def round_half_even_def Let_def floor_rat_numeral)

lemma rnd_value_21: "rnd binary64 (17944029723407429 / 70368744177664) = 4486007430851857 / 17592186044416"
  using rnd_at [of "7" "17944029723407429 / 70368744177664" binary64]
  by (simp add: binary64_def pow2_def round_half_even_def Let_def floor_rat_numeral)

lemmas rnd_values = rnd_value_1 rnd_value_2 rnd_value_3 rnd_value_4 rnd_value_5 rnd_value_6 rnd_value_7 rnd_value_8 rnd_value_9 rnd_value_10 rnd_value_11 rnd_value_12 rnd_value_13 rnd_value_14 rnd_value_15 rnd_value_16 rnd_value_17 rnd_value_18 rnd_value_19 rnd_value_20 rnd_value_21

lemma normalize_1_128_255:
  "normalize_img_array [(1, 128, 255)] =
     [(- (16011243 / 33554432), 11928253 / 268435456, 2483571 / 4194304)]"
  by (simp add: normalize_img_array_def normalize_entry_def RGB_MEAN_def Let_def rnd_values)

text \<open>
  Claim C6 fails on the code: the pixel \<open>(1, 128, 255)\<close> comes back as \<open>(0, 127, 254)\<close>.
  The subtraction of the mean is rounded to \<open>float32\<close>, so the sum that \<open>restore_img\<close>
  forms in \<open>float64\<close> lies just below the original integer, and the cast to \<open>uint8\<close>
  drops the fractional part instead of rounding.
\<close>

theorem restore_normalize_1_128_255:
  "restore_img (normalize_img_array [(1, 128, 255)]) = [(0, 127, 254)]"
  by (simp add: normalize_1_128_255 restore_img_def restore_entry_def RGB_MEAN_def Let_def
      rnd_values floor_rat_numeral)

end
